theory Spec2Isabelle
  imports Main "HOL-Library.Word"
begin

unbundle bit_operations_syntax

section \<open>JavaScript numbers and typed arrays\<close>

text \<open>
  The source is TypeScript. Every number it handles is an integer, modelled as \<open>int\<close>.
  The bitwise operators of JavaScript first convert their operands to 32 bits
  (\<open>ToInt32\<close>, \<open>ToUint32\<close>); the shift count is taken modulo 32. The value
  \<open>undefined\<close>, which a read outside a typed array gives, converts to 0.
\<close>

definition toUint32 :: "int \<Rightarrow> int" where
  "toUint32 x = x mod 2 ^ 32"

definition toInt32 :: "int \<Rightarrow> int" where
  "toInt32 x = (let u = x mod 2 ^ 32 in if 2 ^ 31 \<le> u then u - 2 ^ 32 else u)"

text \<open>\<open>a & b\<close>, \<open>a | b\<close>, \<open>a ^ b\<close>, \<open>a << n\<close>, \<open>a >>> n\<close>.\<close>

definition js_and :: "int \<Rightarrow> int \<Rightarrow> int" where
  "js_and a b = toInt32 a AND toInt32 b"

definition js_or :: "int \<Rightarrow> int \<Rightarrow> int" where
  "js_or a b = toInt32 a OR toInt32 b"

definition js_xor :: "int \<Rightarrow> int \<Rightarrow> int" where
  "js_xor a b = toInt32 a XOR toInt32 b"

definition js_shl :: "int \<Rightarrow> int \<Rightarrow> int" where
  "js_shl a n = toInt32 (toInt32 a * 2 ^ nat (n mod 32))"

definition js_ushr :: "int \<Rightarrow> int \<Rightarrow> int" where
  "js_ushr a n = toUint32 a div 2 ^ nat (n mod 32)"

text \<open>
  A \<open>Uint16Array\<close> is a list of 16-bit words. Reading \<open>data[i]\<close> gives the number
  stored there, or \<open>undefined\<close> (\<open>None\<close>) when \<open>i\<close> is not an index of the array;
  writing \<open>data[i] = v\<close> stores \<open>v\<close> modulo \<open>2^16\<close> and does nothing when \<open>i\<close> is
  not an index of the array.
\<close>

type_synonym Uint16Array = "16 word list"

definition rd :: "Uint16Array \<Rightarrow> int \<Rightarrow> int option" where
  "rd a i = (if 0 \<le> i \<and> i < int (length a) then Some (uint (a ! nat i)) else None)"

definition wr :: "Uint16Array \<Rightarrow> int \<Rightarrow> int \<Rightarrow> Uint16Array" where
  "wr a i v = (if 0 \<le> i \<and> i < int (length a) then a[nat i := word_of_int v] else a)"

text \<open>The number a bitwise operator sees for a value read from an array.\<close>

definition num :: "int option \<Rightarrow> int" where
  "num v = (case v of None \<Rightarrow> 0 | Some n \<Rightarrow> n)"

text \<open>\<open>a.slice(0, e)\<close>: a negative end counts from the end of the array.\<close>

definition slice0 :: "Uint16Array \<Rightarrow> int \<Rightarrow> Uint16Array" where
  "slice0 a e = (if e < 0 then take (nat (int (length a) + e)) a else take (nat e) a)"

datatype error = RangeError

section \<open>Bit arithmetic helpers\<close>

definition getIndex :: "int \<Rightarrow> int" where
  "getIndex bitNumber = js_ushr bitNumber 4"

definition unIndex :: "int \<Rightarrow> int" where
  "unIndex n = n * 16"

text \<open>
  \<open>findLSBSet\<close> and \<open>findMSBSet\<close>: the \<open>for\<close> loops over \<open>i\<close>, with the probing
  \<open>bit\<close> (here \<open>bt\<close>) carried along; falling out of the loop is the \<open>RangeError\<close>.
\<close>

function findLSBSet_loop :: "int \<Rightarrow> int \<Rightarrow> int \<Rightarrow> error + int" where
  "findLSBSet_loop word bt i =
     (if i < 16 then
        (if js_and word bt \<noteq> 0 then Inr i
         else findLSBSet_loop word (js_ushr (js_shl bt 1) 0) (i + 1))
      else Inl RangeError)"
  by pat_completeness auto
termination
  by (relation "measure (\<lambda>(word, bt, i). nat (16 - i))") auto

definition findLSBSet :: "int \<Rightarrow> error + int" where
  "findLSBSet word = findLSBSet_loop word 1 0"

function findMSBSet_loop :: "int \<Rightarrow> int \<Rightarrow> int \<Rightarrow> error + int" where
  "findMSBSet_loop word bt i =
     (if 0 \<le> i then
        (if js_and word bt \<noteq> 0 then Inr i
         else findMSBSet_loop word (js_ushr bt 1) (i - 1))
      else Inl RangeError)"
  by pat_completeness auto
termination
  by (relation "measure (\<lambda>(word, bt, i). nat (i + 1))") auto

definition findMSBSet :: "int \<Rightarrow> error + int" where
  "findMSBSet word = findMSBSet_loop word (js_ushr (js_shl 1 15) 0) 15"

definition bitsFor :: "int \<Rightarrow> int \<Rightarrow> int" where
  "bitsFor fromBit0 toBit0 =
     (let fromBit = js_and fromBit0 0xF;
          toBit = js_and toBit0 0xF
      in if fromBit = toBit then js_ushr (js_shl 1 fromBit) 0
         else js_xor (js_ushr 0xFFFF (15 - toBit)) (js_ushr 0xFFFF (16 - fromBit)))"


text \<open>
  \<open>POP_CNT\<close> is a table of 65536 bytes filled at load time: pass \<open>i\<close> (stride \<open>2^i\<close>)
  walks the table in blocks of \<open>stride\<close> entries, skipping one block and incrementing
  every entry of the next, so it increments entry \<open>k\<close> exactly when \<open>k div 2^i\<close> is
  odd. The entry is the number of passes that incremented it (at most 16, so the
  byte never wraps).
\<close>

definition POP_CNT :: "int \<Rightarrow> int" where
  "POP_CNT k = int (length (filter (\<lambda>i. odd (k div 2 ^ i)) [0..<16]))"

section \<open>The BitSet\<close>

record BitSet =
  data :: Uint16Array

definition EMPTY_DATA :: Uint16Array where
  "EMPTY_DATA = []"

text \<open>\<open>new Uint16Array(n)\<close>: \<open>n\<close> zero words.\<close>

definition new_Uint16Array :: "int \<Rightarrow> Uint16Array" where
  "new_Uint16Array n = replicate (nat n) 0"

subsection \<open>set and get\<close>

text \<open>\<open>_setBits(word, value, mask)\<close>, on the array it updates (\<open>msk\<close> is the mask).\<close>

definition setBits :: "Uint16Array \<Rightarrow> int \<Rightarrow> bool \<Rightarrow> int \<Rightarrow> Uint16Array" where
  "setBits d word value msk =
     (if value then wr d word (js_or (num (rd d word)) msk)
      else wr d word (js_and (num (rd d word)) (js_xor 0xFFFF msk)))"

text \<open>The loop \<open>while (word < lastWord) this.data[word++] = value ? 0xFFFF : 0\<close>;
  it returns the array and the final \<open>word\<close>.\<close>

function set_loop :: "Uint16Array \<Rightarrow> int \<Rightarrow> int \<Rightarrow> bool \<Rightarrow> Uint16Array \<times> int" where
  "set_loop d word lastWord value =
     (if word < lastWord
      then set_loop (wr d word (if value then 0xFFFF else 0)) (word + 1) lastWord value
      else (d, word))"
  by pat_completeness auto
termination
  by (relation "measure (\<lambda>(d, word, lastWord, value). nat (lastWord - word))") auto

text \<open>The last statement of \<open>set\<close>: first partial word, whole words, last partial word.\<close>

definition set_words :: "Uint16Array \<Rightarrow> int \<Rightarrow> int \<Rightarrow> int \<Rightarrow> int \<Rightarrow> bool \<Rightarrow> Uint16Array" where
  "set_words d word lastWord fromIndex toIndex value =
     (if word = lastWord then setBits d word value (bitsFor fromIndex toIndex)
      else
        (let d1 = setBits d word value (bitsFor fromIndex 15);
             (d2, w) = set_loop d1 (word + 1) lastWord value
         in setBits d2 w value (bitsFor 0 toIndex)))"

text \<open>
  The second parameter of \<open>set\<close> is absent, a boolean or a number; the third is absent
  or a boolean. Growing copies the old words into a new array of \<open>lastWord + 1\<close> words.
\<close>

datatype set_arg = Absent | Flag bool | Index int

definition BitSet_set :: "BitSet \<Rightarrow> int \<Rightarrow> set_arg \<Rightarrow> bool option \<Rightarrow> error + BitSet" where
  "BitSet_set this fromIndex toIndex0 value0 =
     (let (toIndex, value1) =
            (case toIndex0 of
               Absent \<Rightarrow> (fromIndex, Some True)
             | Flag b \<Rightarrow> (fromIndex, Some b)
             | Index t \<Rightarrow> (t, value0));
          value = (case value1 of None \<Rightarrow> True | Some v \<Rightarrow> v)
      in if fromIndex < 0 \<or> fromIndex > toIndex then Inl RangeError
         else
           (let word = getIndex fromIndex;
                lastWord = getIndex toIndex;
                len = int (length (data this))
            in if value \<and> lastWord \<ge> len then
                 (let temp = data this @ replicate (nat (lastWord + 1) - length (data this)) 0
                  in Inr (this\<lparr>data := set_words temp word lastWord fromIndex toIndex value\<rparr>))
               else if \<not> value then
                 (if word \<ge> len then Inr this
                  else if lastWord \<ge> len then
                    Inr (this\<lparr>data := set_words (data this) word (len - 1) fromIndex (len * 16 - 1) value\<rparr>)
                  else Inr (this\<lparr>data := set_words (data this) word lastWord fromIndex toIndex value\<rparr>))
               else Inr (this\<lparr>data := set_words (data this) word lastWord fromIndex toIndex value\<rparr>)))"

text \<open>\<open>clear(bitIndex)\<close> is \<open>set(bitIndex, false)\<close>.\<close>

definition BitSet_clear :: "BitSet \<Rightarrow> int \<Rightarrow> error + BitSet" where
  "BitSet_clear this bitIndex = BitSet_set this bitIndex (Flag False) None"

text \<open>
  \<open>flip(fromIndex, toIndex?)\<close>; the loop \<open>while (word < lastWord) this.data[word++] ^= 0xFFFF\<close>
  returns the array and the final \<open>word\<close>.
\<close>

function flip_loop :: "Uint16Array \<Rightarrow> int \<Rightarrow> int \<Rightarrow> Uint16Array \<times> int" where
  "flip_loop d word lastWord =
     (if word < lastWord
      then flip_loop (wr d word (js_xor (num (rd d word)) 0xFFFF)) (word + 1) lastWord
      else (d, word))"
  by pat_completeness auto
termination
  by (relation "measure (\<lambda>(d, word, lastWord). nat (lastWord - word))") auto

definition BitSet_flip :: "BitSet \<Rightarrow> int \<Rightarrow> int option \<Rightarrow> error + BitSet" where
  "BitSet_flip this fromIndex toIndex0 =
     (let toIndex = (case toIndex0 of None \<Rightarrow> fromIndex | Some t \<Rightarrow> t)
      in if fromIndex < 0 \<or> toIndex < fromIndex then Inl RangeError
         else
           (let word = getIndex fromIndex;
                lastWord = getIndex toIndex;
                d = data this
            in if word = lastWord then
                 Inr (this\<lparr>data := wr d word (js_xor (num (rd d word)) (bitsFor fromIndex toIndex))\<rparr>)
               else
                 (let d1 = wr d word (js_xor (num (rd d word)) (bitsFor fromIndex 15));
                      (d2, w) = flip_loop d1 (word + 1) lastWord
                  in Inr (this\<lparr>data := wr d2 w (js_xor (num (rd d2 w)) (bitsFor 0 toIndex))\<rparr>))))"

text \<open>
  \<open>get(bitIndex)\<close>, the form with one argument. The source has no check and no
  \<open>throw\<close> on this path, so the model always returns \<open>Inr\<close>.
\<close>

definition BitSet_get :: "BitSet \<Rightarrow> int \<Rightarrow> error + bool" where
  "BitSet_get this fromIndex =
     Inr (js_and (num (rd (data this) (getIndex fromIndex))) (bitsFor fromIndex fromIndex) \<noteq> 0)"

text \<open>\<open>size\<close>: \<open>byteLength * 8\<close>, two bytes a word.\<close>

definition BitSet_size :: "BitSet \<Rightarrow> int" where
  "BitSet_size this = int (length (data this)) * 2 * 8"

subsection \<open>The constructor\<close>

datatype ctor_arg = NoArg | Nbits int | Other BitSet | Numbers "int list"

text \<open>The two \<open>for (let v of arg)\<close> loops of the constructor.\<close>

fun max_loop :: "int \<Rightarrow> int list \<Rightarrow> int" where
  "max_loop mx [] = mx"
| "max_loop mx (v # vs) = max_loop (if mx < v then v else mx) vs"

fun set_each :: "BitSet \<Rightarrow> int list \<Rightarrow> error + BitSet" where
  "set_each this [] = Inr this"
| "set_each this (v # vs) =
     (case BitSet_set this v Absent None of
        Inl e \<Rightarrow> Inl e
      | Inr this' \<Rightarrow> set_each this' vs)"

text \<open>\<open>!arg\<close> holds for no argument and for the number 0.\<close>

fun BitSet_new :: "ctor_arg \<Rightarrow> error + BitSet" where
  "BitSet_new NoArg = Inr \<lparr>data = EMPTY_DATA\<rparr>"
| "BitSet_new (Nbits arg) =
     (if arg = 0 then Inr \<lparr>data = EMPTY_DATA\<rparr>
      else if arg < 0 then Inl RangeError
      else Inr \<lparr>data = new_Uint16Array (getIndex (arg - 1) + 1)\<rparr>)"
| "BitSet_new (Other arg) = Inr \<lparr>data = data arg\<rparr>"
| "BitSet_new (Numbers arg) =
     (let mx = max_loop (- 1) arg
      in set_each \<lparr>data = new_Uint16Array (getIndex (mx - 1) + 1)\<rparr> arg)"


subsection \<open>Scans\<close>

text \<open>
  The inner \<open>for\<close> loops of the four scans; each returns the final \<open>word\<close>.
  \<open>data[word] !== c\<close> holds when the read is \<open>undefined\<close>.
\<close>

function scan_up :: "Uint16Array \<Rightarrow> int \<Rightarrow> int \<Rightarrow> int" where
  "scan_up d c word =
     (if word < int (length d)
      then (if rd d word \<noteq> Some c then word else scan_up d c (word + 1))
      else word)"
  by pat_completeness auto
termination
  by (relation "measure (\<lambda>(d, c, word). nat (int (length d) - word))") auto

function scan_down :: "Uint16Array \<Rightarrow> int \<Rightarrow> int \<Rightarrow> int" where
  "scan_down d c word =
     (if 0 \<le> word
      then (if rd d word \<noteq> Some c then word else scan_down d c (word - 1))
      else word)"
  by pat_completeness auto
termination
  by (relation "measure (\<lambda>(d, c, word). nat (word + 1))") auto

definition BitSet_nextClearBit :: "BitSet \<Rightarrow> int \<Rightarrow> error + int" where
  "BitSet_nextClearBit this fromIndex =
     (if fromIndex < 0 then Inl RangeError
      else
        (let d = data this;
             len = int (length d);
             word = getIndex fromIndex
         in if word > len then Inr (- 1)
            else
              (let ignore = js_xor 0xFFFF (bitsFor fromIndex 15)
               in if js_or (num (rd d word)) ignore = 0xFFFF then
                    (let word' = scan_up d 0xFFFF (word + 1)
                     in if word' = len then Inr (- 1)
                        else map_sum id (\<lambda>b. unIndex word' + b)
                               (findLSBSet (js_xor (js_or (num (rd d word')) 0) 0xFFFF)))
                  else map_sum id (\<lambda>b. unIndex word + b)
                         (findLSBSet (js_xor (js_or (num (rd d word)) ignore) 0xFFFF)))))"

definition BitSet_nextSetBit :: "BitSet \<Rightarrow> int \<Rightarrow> error + int" where
  "BitSet_nextSetBit this fromIndex =
     (if fromIndex < 0 then Inl RangeError
      else
        (let d = data this;
             len = int (length d);
             word = getIndex fromIndex
         in if word > len then Inr (- 1)
            else
              (let msk = bitsFor fromIndex 15
               in if js_and (num (rd d word)) msk = 0 then
                    (let word' = scan_up d 0 (word + 1)
                     in if word' \<ge> len then Inr (- 1)
                        else map_sum id (\<lambda>b. unIndex word' + b)
                               (findLSBSet (js_and (num (rd d word')) 0xFFFF)))
                  else map_sum id (\<lambda>b. unIndex word + b)
                         (findLSBSet (js_and (num (rd d word)) msk)))))"

definition BitSet_previousClearBit :: "BitSet \<Rightarrow> int \<Rightarrow> error + int" where
  "BitSet_previousClearBit this fromIndex =
     (if fromIndex < 0 then Inl RangeError
      else
        (let d = data this;
             len = int (length d);
             word0 = getIndex fromIndex;
             word = (if word0 \<ge> len then len - 1 else word0);
             ignore = js_xor 0xFFFF (bitsFor 0 fromIndex)
         in if js_or (num (rd d word)) ignore = 0xFFFF then
              (let word' = scan_down d 0xFFFF (word - 1)
               in if word' < 0 then Inr (- 1)
                  else map_sum id (\<lambda>b. unIndex word' + b)
                         (findMSBSet (js_xor (js_or (num (rd d word')) 0) 0xFFFF)))
            else map_sum id (\<lambda>b. unIndex word + b)
                   (findMSBSet (js_xor (js_or (num (rd d word)) ignore) 0xFFFF))))"

definition BitSet_previousSetBit :: "BitSet \<Rightarrow> int \<Rightarrow> error + int" where
  "BitSet_previousSetBit this fromIndex =
     (if fromIndex < 0 then Inl RangeError
      else
        (let d = data this;
             len = int (length d);
             word0 = getIndex fromIndex;
             word = (if word0 \<ge> len then len - 1 else word0);
             msk = bitsFor 0 fromIndex
         in if js_and (num (rd d word)) msk = 0 then
              (let word' = scan_down d 0 (word - 1)
               in if word' < 0 then Inr (- 1)
                  else map_sum id (\<lambda>b. unIndex word' + b)
                         (findMSBSet (js_and (num (rd d word')) 0xFFFF)))
            else map_sum id (\<lambda>b. unIndex word + b)
                   (findMSBSet (js_and (num (rd d word)) msk))))"

text \<open>\<open>length()\<close>, the \<open>isEmpty\<close> getter and \<open>cardinality()\<close> with its summing loop.\<close>

definition BitSet_length :: "BitSet \<Rightarrow> error + int" where
  "BitSet_length this =
     (if length (data this) = 0 then Inr 0
      else map_sum id (\<lambda>p. p + 1)
             (BitSet_previousSetBit this (unIndex (int (length (data this))) - 1)))"

definition BitSet_isEmpty :: "BitSet \<Rightarrow> error + bool" where
  "BitSet_isEmpty this = map_sum id (\<lambda>n. n = 0) (BitSet_length this)"

function cardinality_loop :: "Uint16Array \<Rightarrow> int \<Rightarrow> int \<Rightarrow> int" where
  "cardinality_loop d i result =
     (if i < int (length d)
      then cardinality_loop d (i + 1) (result + POP_CNT (num (rd d i)))
      else result)"
  by pat_completeness auto
termination
  by (relation "measure (\<lambda>(d, i, result). nat (int (length d) - i))") auto

definition BitSet_cardinality :: "BitSet \<Rightarrow> error + int" where
  "BitSet_cardinality this =
     (case BitSet_isEmpty this of
        Inl e \<Rightarrow> Inl e
      | Inr True \<Rightarrow> Inr 0
      | Inr False \<Rightarrow> Inr (cardinality_loop (data this) 0 0))"


subsection \<open>Set algebra\<close>

text \<open>
  The word loops of \<open>and\<close>, \<open>andNot\<close>, \<open>or\<close> and \<open>xor\<close>. Each takes the array it
  writes and returns it with \<open>lastWord\<close>. Iteration \<open>i\<close> reads index \<open>i\<close> of its
  operands before it writes index \<open>i\<close>, and no later iteration reads that index, so
  the operands are passed as they were on entry also when the written array is one of
  them.
\<close>

function and_loop :: "Uint16Array \<Rightarrow> Uint16Array \<Rightarrow> int \<Rightarrow> int \<Rightarrow> int \<Rightarrow> Uint16Array \<times> int" where
  "and_loop d other words i lastWord =
     (if i < words then
        (let v = js_and (num (rd d i)) (num (rd other i))
         in and_loop (wr d i v) other words (i + 1) (if v \<noteq> 0 then i else lastWord))
      else (d, lastWord))"
  by pat_completeness auto
termination
  by (relation "measure (\<lambda>(d, other, words, i, lastWord). nat (words - i))") auto

function andNot_loop :: "Uint16Array \<Rightarrow> Uint16Array \<Rightarrow> int \<Rightarrow> int \<Rightarrow> int \<Rightarrow> Uint16Array \<times> int" where
  "andNot_loop d other words i lastWord =
     (if i < words then
        (let v = js_and (num (rd d i)) (js_xor (num (rd other i)) 0xFFFF)
         in andNot_loop (wr d i v) other words (i + 1) (if v \<noteq> 0 then i else lastWord))
      else (d, lastWord))"
  by pat_completeness auto
termination
  by (relation "measure (\<lambda>(d, other, words, i, lastWord). nat (words - i))") auto

function or_loop :: "Uint16Array \<Rightarrow> Uint16Array \<Rightarrow> Uint16Array \<Rightarrow> int \<Rightarrow> int \<Rightarrow> int \<Rightarrow> Uint16Array \<times> int" where
  "or_loop dest d other minWords i lastWord =
     (if i < minWords then
        (let v = js_or (num (rd d i)) (num (rd other i))
         in or_loop (wr dest i v) d other minWords (i + 1) (if v \<noteq> 0 then i else lastWord))
      else (dest, lastWord))"
  by pat_completeness auto
termination
  by (relation "measure (\<lambda>(dest, d, other, minWords, i, lastWord). nat (minWords - i))") auto

function xor_loop :: "Uint16Array \<Rightarrow> Uint16Array \<Rightarrow> Uint16Array \<Rightarrow> int \<Rightarrow> int \<Rightarrow> int \<Rightarrow> Uint16Array \<times> int" where
  "xor_loop dest d other minWords i lastWord =
     (if i < minWords then
        (let v = js_xor (num (rd d i)) (num (rd other i))
         in xor_loop (wr dest i v) d other minWords (i + 1) (if v \<noteq> 0 then i else lastWord))
      else (dest, lastWord))"
  by pat_completeness auto
termination
  by (relation "measure (\<lambda>(dest, d, other, minWords, i, lastWord). nat (minWords - i))") auto

text \<open>The second loop of \<open>or\<close> and \<open>xor\<close>: \<open>dest[i] = longer[i]\<close>.\<close>

function copy_loop :: "Uint16Array \<Rightarrow> Uint16Array \<Rightarrow> int \<Rightarrow> int \<Rightarrow> int \<Rightarrow> Uint16Array \<times> int" where
  "copy_loop dest longer words i lastWord =
     (if i < words then
        (let v = num (rd longer i)
         in copy_loop (wr dest i v) longer words (i + 1) (if v \<noteq> 0 then i else lastWord))
      else (dest, lastWord))"
  by pat_completeness auto
termination
  by (relation "measure (\<lambda>(dest, longer, words, i, lastWord). nat (words - i))") auto

text \<open>
  \<open>and\<close> and \<open>andNot\<close> end with two \<open>if\<close> statements in sequence, the second
  slicing the local \<open>data\<close> (the array the loop wrote).
\<close>

definition BitSet_and :: "BitSet \<Rightarrow> BitSet \<Rightarrow> BitSet" where
  "BitSet_and this st =
     (let d0 = data this;
          other = data st;
          words = min (int (length d0)) (int (length other));
          (d, lastWord) = and_loop d0 other words 0 (- 1);
          this1 = (if lastWord = - 1 then this\<lparr>data := EMPTY_DATA\<rparr> else this\<lparr>data := d\<rparr>)
      in if lastWord < int (length d) - 1 then this1\<lparr>data := slice0 d (lastWord + 1)\<rparr>
         else this1)"

definition BitSet_andNot :: "BitSet \<Rightarrow> BitSet \<Rightarrow> BitSet" where
  "BitSet_andNot this st =
     (let d0 = data this;
          other = data st;
          words = min (int (length d0)) (int (length other));
          (d, lastWord) = andNot_loop d0 other words 0 (- 1);
          this1 = (if lastWord = - 1 then this\<lparr>data := EMPTY_DATA\<rparr> else this\<lparr>data := d\<rparr>)
      in if lastWord < int (length d) - 1 then this1\<lparr>data := slice0 d (lastWord + 1)\<rparr>
         else this1)"

definition BitSet_or :: "BitSet \<Rightarrow> BitSet \<Rightarrow> BitSet" where
  "BitSet_or this st =
     (let d = data this;
          other = data st;
          minWords = min (int (length d)) (int (length other));
          words = max (int (length d)) (int (length other));
          dest0 = (if int (length d) = words then d else new_Uint16Array words);
          (dest1, lastWord1) = or_loop dest0 d other minWords 0 (- 1);
          longer = (if length d > length other then d else other);
          (dest, lastWord) = copy_loop dest1 longer words minWords lastWord1
      in if lastWord = - 1 then this\<lparr>data := EMPTY_DATA\<rparr>
         else if int (length dest) = lastWord + 1 then this\<lparr>data := dest\<rparr>
         else this\<lparr>data := slice0 dest lastWord\<rparr>)"

definition BitSet_xor :: "BitSet \<Rightarrow> BitSet \<Rightarrow> BitSet" where
  "BitSet_xor this st =
     (let d = data this;
          other = data st;
          minWords = min (int (length d)) (int (length other));
          words = max (int (length d)) (int (length other));
          dest0 = (if int (length d) = words then d else new_Uint16Array words);
          (dest1, lastWord1) = xor_loop dest0 d other minWords 0 (- 1);
          longer = (if length d > length other then d else other);
          (dest, lastWord) = copy_loop dest1 longer words minWords lastWord1
      in if lastWord = - 1 then this\<lparr>data := EMPTY_DATA\<rparr>
         else if int (length dest) = lastWord + 1 then this\<lparr>data := dest\<rparr>
         else this\<lparr>data := slice0 dest (lastWord + 1)\<rparr>)"

subsection \<open>Equality and hashing\<close>

text \<open>
  \<open>equals(obj)\<close> for an \<open>obj\<close> that is a BitSet. The source first answers \<open>true\<close> when
  \<open>obj\<close> is the receiver itself; the rest of the body gives the same answer for two
  BitSets with the same array, so the model, which has values and no object identity,
  starts at \<open>this.length()\<close>.
\<close>

function equals_loop :: "Uint16Array \<Rightarrow> Uint16Array \<Rightarrow> int \<Rightarrow> int \<Rightarrow> bool" where
  "equals_loop d other i bound =
     (if i \<le> bound
      then (if rd d i \<noteq> rd other i then False else equals_loop d other (i + 1) bound)
      else True)"
  by pat_completeness auto
termination
  by (relation "measure (\<lambda>(d, other, i, bound). nat (bound + 1 - i))") auto

definition BitSet_equals :: "BitSet \<Rightarrow> BitSet \<Rightarrow> error + bool" where
  "BitSet_equals this obj =
     (case BitSet_length this of
        Inl e \<Rightarrow> Inl e
      | Inr len \<Rightarrow>
          (case BitSet_length obj of
             Inl e \<Rightarrow> Inl e
           | Inr len' \<Rightarrow>
               if len \<noteq> len' then Inr False
               else if len = 0 then Inr True
               else Inr (equals_loop (data this) (data obj) 0 (getIndex (len - 1)))))"

text \<open>
  \<open>hashCode()\<close> is \<open>MurmurHash.hashCode(this.data, 22)\<close>. \<open>MurmurHash\<close> is another
  module of the repository; it is the parameter \<open>murmur\<close> here.
\<close>

definition BitSet_hashCode :: "(Uint16Array \<Rightarrow> int \<Rightarrow> int) \<Rightarrow> BitSet \<Rightarrow> int" where
  "BitSet_hashCode murmur this = murmur (data this) 22"

text \<open>
  Modelled from the spec: \<open>MurmurHash.hashCode(data, seed)\<close>, whose module
  \<open>./MurmurHash\<close> is not among the sources. The spec asks for "a order-sensitive hash
  over the stored word sequence (any stable mixing hash [...] is acceptable) seeded
  with a fixed constant". This one starts from the seed and folds in every word of
  the sequence, in order, in 32-bit arithmetic.
\<close>

definition MurmurHash_hashCode :: "Uint16Array \<Rightarrow> int \<Rightarrow> int" where
  "MurmurHash_hashCode d seed = foldl (\<lambda>h w. toInt32 (31 * h + uint w)) seed d"

text \<open>
  What \<open>lastWord\<close> is in the loops of the set algebra: \<minus>1, or the index of a stored
  non-zero word.
\<close>

definition tracks :: "Uint16Array \<Rightarrow> int \<Rightarrow> bool" where
  "tracks d lastWord =
     (lastWord = - 1 \<or> (0 \<le> lastWord \<and> lastWord < int (length d) \<and> d ! nat lastWord \<noteq> 0))"

text \<open>The storage invariant of the spec: no trailing zero word.\<close>

definition trimmed :: "Uint16Array \<Rightarrow> bool" where
  "trimmed d = (d = [] \<or> last d \<noteq> 0)"

subsection \<open>The iterator\<close>

record BitSetIterator =
  it_data :: Uint16Array
  it_index :: int
  it_mask :: int

text \<open>\<open>[Symbol.iterator]()\<close>: a new cursor on the BitSet's array.\<close>

definition BitSet_iterator :: "BitSet \<Rightarrow> BitSetIterator" where
  "BitSet_iterator this = \<lparr>it_data = data this, it_index = 0, it_mask = 0xFFFF\<rparr>"

text \<open>\<open>next()\<close> returns the result \<open>(done, value)\<close> and the cursor as it leaves it.\<close>

function BitSetIterator_next :: "BitSetIterator \<Rightarrow> error + ((bool \<times> int) \<times> BitSetIterator)" where
  "BitSetIterator_next it =
     (if it_index it < int (length (it_data it)) then
        (let bits = js_and (num (rd (it_data it) (it_index it))) (it_mask it)
         in if bits \<noteq> 0 then
              (case findLSBSet bits of
                 Inl e \<Rightarrow> Inl e
               | Inr b \<Rightarrow>
                   (let bitNumber = unIndex (it_index it) + b
                    in Inr ((False, bitNumber), it\<lparr>it_mask := bitsFor (bitNumber + 1) 15\<rparr>)))
            else BitSetIterator_next (it\<lparr>it_index := it_index it + 1, it_mask := 0xFFFF\<rparr>))
      else Inr ((True, - 1), it))"
  by pat_completeness auto
termination
  by (relation "measure (\<lambda>it. nat (int (length (it_data it)) - it_index it))") auto

text \<open>
  Consuming the iterator (\<open>for ... of\<close>, spreading): call \<open>next()\<close> until it reports
  \<open>done\<close>, collecting the values. The number of calls is bounded by the fuel; \<open>None\<close>
  means that the iterator was not exhausted within that many calls.
\<close>

fun iterate :: "nat \<Rightarrow> BitSetIterator \<Rightarrow> (error + int list) option" where
  "iterate 0 it = None"
| "iterate (Suc n) it =
     (case BitSetIterator_next it of
        Inl e \<Rightarrow> Some (Inl e)
      | Inr ((dn, v), it') \<Rightarrow>
          if dn then Some (Inr [])
          else (case iterate n it' of
                  None \<Rightarrow> None
                | Some (Inl e) \<Rightarrow> Some (Inl e)
                | Some (Inr vs) \<Rightarrow> Some (Inr (v # vs))))"


section \<open>Properties\<close>

lemmas js_defs =
  toUint32_def toInt32_def js_and_def js_or_def js_xor_def js_shl_def js_ushr_def

text \<open>The equations of the loops are unfolded only where a proof asks for them.\<close>

declare findLSBSet_loop.simps [simp del] findMSBSet_loop.simps [simp del]
  set_loop.simps [simp del] scan_up.simps [simp del] scan_down.simps [simp del]
  cardinality_loop.simps [simp del] and_loop.simps [simp del] andNot_loop.simps [simp del]
  or_loop.simps [simp del] xor_loop.simps [simp del] copy_loop.simps [simp del]
  equals_loop.simps [simp del] BitSetIterator_next.simps [simp del] flip_loop.simps [simp del]

subsection \<open>Arithmetic of the helpers\<close>

text \<open>
  Facts about the 32-bit operators on the numbers the BitSet handles (words below
  \<open>2^16\<close>, bit indices below \<open>2^32\<close>), and about the array writes.
\<close>

lemma toInt32_small: "0 \<le> x \<Longrightarrow> x < 2 ^ 31 \<Longrightarrow> toInt32 x = x"
  by (simp add: toInt32_def)

lemma js_and_uint_FFFF: "js_and (uint (w :: 16 word)) 0xFFFF = uint w"
proof -
  have b: "0 \<le> uint w" "uint w < 2 ^ 16"
    using uint_lt2p [of w] by simp_all
  then have "toInt32 (uint w) = uint w"
    by (intro toInt32_small) simp_all
  moreover have "toInt32 0xFFFF = 0xFFFF"
    by (simp add: toInt32_def)
  moreover have "uint w AND 0xFFFF = uint w"
  proof -
    have "uint w AND mask 16 = take_bit 16 (uint w)"
      by (simp add: take_bit_eq_mask)
    also have "\<dots> = uint w"
      using b by (simp add: take_bit_int_eq_self)
    finally show ?thesis by (simp add: mask_eq_exp_minus_1)
  qed
  ultimately show ?thesis by (simp add: js_and_def)
qed

lemma toInt32_mod_16: "toInt32 x mod 16 = x mod 16"
proof -
  have "(x mod 2 ^ 32) mod 16 = x mod 16"
    by (rule mod_mod_cancel) simp
  moreover have "(y - 2 ^ 32) mod 16 = y mod 16" for y :: int
  proof -
    have "(y - 2 ^ 32) mod 16 = (y + (- 268435456) * 16) mod 16" by simp
    also have "\<dots> = y mod 16" by (rule mod_mult_self1)
    finally show ?thesis .
  qed
  ultimately show ?thesis by (simp add: toInt32_def Let_def)
qed

lemma js_and_15: "js_and x 0xF = x mod 16"
proof -
  have "toInt32 x AND mask 4 = take_bit 4 (toInt32 x)"
    by (simp add: take_bit_eq_mask)
  then have "toInt32 x AND 15 = toInt32 x mod 16"
    by (simp add: mask_eq_exp_minus_1 take_bit_eq_mod)
  moreover have "toInt32 0xF = 0xF" by (simp add: toInt32_def)
  ultimately show ?thesis by (simp add: js_and_def toInt32_mod_16)
qed

lemma getIndex_div: "0 \<le> x \<Longrightarrow> x < 2 ^ 32 \<Longrightarrow> getIndex x = x div 16"
  by (simp add: getIndex_def js_ushr_def toUint32_def)

lemma bitsFor_0_last: "x mod 16 = 15 \<Longrightarrow> bitsFor 0 x = 0xFFFF"
  by (simp add: bitsFor_def js_and_15) (simp add: js_defs)

lemma findMSBSet_loop_range:
  "findMSBSet_loop word bt i = Inr b \<Longrightarrow> 0 \<le> b \<and> b \<le> i"
proof (induction word bt i rule: findMSBSet_loop.induct)
  case (1 word bt i)
  show ?case
  proof (cases "0 \<le> i \<and> js_and word bt = 0")
    case True
    with "1.prems" have "findMSBSet_loop word (js_ushr bt 1) (i - 1) = Inr b"
      by (simp add: findMSBSet_loop.simps [of word bt i])
    with "1.IH" True show ?thesis by fastforce
  next
    case False
    with "1.prems" show ?thesis
      by (auto simp: findMSBSet_loop.simps [of word bt i] split: if_splits)
  qed
qed

lemma findMSBSet_range: "findMSBSet word = Inr b \<Longrightarrow> 0 \<le> b \<and> b \<le> 15"
  unfolding findMSBSet_def by (rule findMSBSet_loop_range)


lemma num_rd_bounds: "0 \<le> num (rd d i) \<and> num (rd d i) < 2 ^ 16"
  using uint_lt2p [of "d ! nat i"] by (simp add: num_def rd_def)

lemma toInt32_word16: "0 \<le> x \<Longrightarrow> x < 2 ^ 16 \<Longrightarrow> toInt32 x = x"
  by (rule toInt32_small) simp_all

lemma js_and_bounds:
  assumes "0 \<le> x" and "x < 2 ^ 16"
  shows "0 \<le> js_and x z \<and> js_and x z < 2 ^ 16"
proof -
  have "js_and x z = x AND toInt32 z"
    using assms by (simp add: js_and_def toInt32_word16)
  moreover have "0 \<le> x AND toInt32 z" using assms(1) by simp
  moreover have "x AND toInt32 z \<le> x" using assms(1) by simp
  ultimately show ?thesis using assms(2) by simp
qed

lemma js_xor_bounds:
  assumes "0 \<le> x" and "x < 2 ^ 16" and "0 \<le> y" and "y < 2 ^ 16"
  shows "0 \<le> js_xor x y \<and> js_xor x y < 2 ^ 16"
proof -
  have "js_xor x y = x XOR y"
    using assms by (simp add: js_xor_def toInt32_word16)
  moreover have "0 \<le> x XOR y" using assms(1,3) by simp
  moreover have "x XOR y < 2 ^ 16" using assms by (intro XOR_upper)
  ultimately show ?thesis by simp
qed

lemma word16_of_int_nonzero:
  assumes "0 \<le> v" and "v < 2 ^ 16" and "v \<noteq> 0"
  shows "(word_of_int v :: 16 word) \<noteq> 0"
proof -
  have "uint (word_of_int v :: 16 word) = v"
    using assms(1,2) by (simp add: uint_word_of_int take_bit_int_eq_self)
  with assms(3) show ?thesis by auto
qed

lemma length_wr: "length (wr d i v) = length d"
  by (simp add: wr_def)

lemma length_setBits: "length (setBits d word value msk) = length d"
  by (simp add: setBits_def length_wr)

lemma getIndex_0: "getIndex 0 = 0"
  by (simp add: getIndex_def js_defs)

lemma getIndex_minus: "getIndex (- 1) = 2 ^ 28 - 1" "getIndex (- 2) = 2 ^ 28 - 1"
  by (simp_all add: getIndex_def js_defs)

subsection \<open>Set algebra: or, andNot\<close>

text \<open>
  C1. After \<open>A.or(B)\<close>, \<open>A.get(k)\<close> should be \<open>old A.get(k) || B.get(k)\<close> for every \<open>k\<close>
  below \<open>max(A.size, B.size)\<close>. The code at \<open>A = new BitSet(32); A.set(0)\<close> and
  \<open>B = new BitSet()\<close>: \<open>A\<close> holds the words \<open>[1, 0]\<close> and bit 0; the last branch of
  \<open>or\<close> slices the result to \<open>lastWord\<close> words (not \<open>lastWord + 1\<close>, as \<open>xor\<close> does),
  so the store becomes empty and bit 0 is lost.
\<close>

theorem or_loses_bit_at_failing_input:
  "BitSet_new (Nbits 32) = Inr \<lparr>data = [0, 0]\<rparr>
   \<and> BitSet_set \<lparr>data = [0, 0]\<rparr> 0 Absent None = Inr \<lparr>data = [1, 0]\<rparr>
   \<and> BitSet_new NoArg = Inr \<lparr>data = []\<rparr>
   \<and> BitSet_get \<lparr>data = [1, 0]\<rparr> 0 = Inr True
   \<and> BitSet_get \<lparr>data = []\<rparr> 0 = Inr False
   \<and> BitSet_or \<lparr>data = [1, 0]\<rparr> \<lparr>data = []\<rparr> = \<lparr>data = []\<rparr>
   \<and> BitSet_get (BitSet_or \<lparr>data = [1, 0]\<rparr> \<lparr>data = []\<rparr>) 0 = Inr False"
  by code_simp

text \<open>
  C2. After \<open>A.andNot(B)\<close>, \<open>A.get(k)\<close> should be \<open>old A.get(k) && !B.get(k)\<close>, and the
  words of \<open>A\<close> beyond the words of \<open>B\<close> should stay. The code at \<open>A = new BitSet();
  A.set(0)\<close> and \<open>B = new BitSet()\<close>: \<open>lastWord\<close> only ranges over the common words, so
  the store of \<open>A\<close> is cut to them and bit 0 is lost.
\<close>

theorem andNot_loses_bit_at_failing_input:
  "BitSet_new NoArg = Inr \<lparr>data = []\<rparr>
   \<and> BitSet_set \<lparr>data = []\<rparr> 0 Absent None = Inr \<lparr>data = [1]\<rparr>
   \<and> BitSet_get \<lparr>data = [1]\<rparr> 0 = Inr True
   \<and> BitSet_get \<lparr>data = []\<rparr> 0 = Inr False
   \<and> BitSet_andNot \<lparr>data = [1]\<rparr> \<lparr>data = []\<rparr> = \<lparr>data = []\<rparr>
   \<and> BitSet_get (BitSet_andNot \<lparr>data = [1]\<rparr> \<lparr>data = []\<rparr>) 0 = Inr False"
  by code_simp

subsection \<open>Iteration\<close>

lemma next_bit15_same_cursor:
  "BitSetIterator_next (BitSet_iterator \<lparr>data = [0x8000]\<rparr>)
     = Inr ((False, 15), BitSet_iterator \<lparr>data = [0x8000]\<rparr>)"
  by code_simp

lemma iterate_same_cursor:
  "BitSetIterator_next it = Inr ((False, v), it) \<Longrightarrow> iterate n it = None"
  by (induction n) simp_all

text \<open>
  C3. Iterating \<open>new BitSet(S)\<close> should yield \<open>S\<close> in ascending order and finish. The
  code at \<open>S = {15}\<close>: the store is \<open>[0x8000]\<close>; \<open>next()\<close> yields 15 and sets the mask to
  \<open>bitsFor(16, 15)\<close>, which is \<open>0xFFFF\<close>, without advancing the word index, so the
  cursor is the initial cursor again. Every call yields 15 and no number of calls
  exhausts the iterator.
\<close>

theorem iterator_never_done_at_failing_input:
  "BitSet_new (Numbers [15]) = Inr \<lparr>data = [0x8000]\<rparr>
   \<and> BitSetIterator_next (BitSet_iterator \<lparr>data = [0x8000]\<rparr>)
       = Inr ((False, 15), BitSet_iterator \<lparr>data = [0x8000]\<rparr>)
   \<and> iterate n (BitSet_iterator \<lparr>data = [0x8000]\<rparr>) = None"
proof -
  have "BitSet_new (Numbers [15]) = Inr \<lparr>data = [0x8000]\<rparr>"
    by code_simp
  with next_bit15_same_cursor iterate_same_cursor [OF next_bit15_same_cursor]
  show ?thesis by blast
qed

subsection \<open>Trailing zero words\<close>

text \<open>
  The loops of \<open>and\<close>, \<open>andNot\<close> and \<open>xor\<close> keep \<open>lastWord\<close> at \<minus>1 or at a
  stored non-zero word, and these three methods cut the store to \<open>lastWord + 1\<close>
  words: their result is trimmed, for all operands.
\<close>

lemma tracks_step:
  assumes "tracks d lw" and "lw < i" and "0 \<le> i" and "i < int (length d)"
    and "0 \<le> v" and "v < 2 ^ 16"
  shows "tracks (wr d i v) (if v \<noteq> 0 then i else lw)"
proof (cases "v = 0")
  case True
  with assms(1,2,3,4) show ?thesis
    by (auto simp: tracks_def wr_def)
next
  case False
  from word16_of_int_nonzero [OF assms(5,6) False] assms(3,4) False show ?thesis
    by (simp add: tracks_def wr_def)
qed

lemma and_loop_tracks:
  assumes "and_loop d other words i lw = (d', lw')"
    and "tracks d lw" and "lw < i" and "0 \<le> i" and "words \<le> int (length d)"
  shows "tracks d' lw'"
  using assms
proof (induction d other words i lw rule: and_loop.induct)
  case (1 d other words i lw)
  show ?case
  proof (cases "i < words")
    case False
    with "1.prems" show ?thesis by (simp add: and_loop.simps [of d other words i lw])
  next
    case True
    let ?v = "js_and (num (rd d i)) (num (rd other i))"
    let ?lw = "if ?v \<noteq> 0 then i else lw"
    from num_rd_bounds [of d i] have vb: "0 \<le> ?v \<and> ?v < 2 ^ 16"
      by (intro js_and_bounds) simp_all
    from True "1.prems"(5) have il: "i < int (length d)" by simp
    have t: "tracks (wr d i ?v) ?lw"
      using tracks_step [OF "1.prems"(2,3,4) il] vb by blast
    have r: "and_loop (wr d i ?v) other words (i + 1) ?lw = (d', lw')"
      using "1.prems"(1) True by (simp add: and_loop.simps [of d other words i lw] Let_def)
    have lt: "?lw < i + 1" using "1.prems"(3) by simp
    show ?thesis
      using "1.IH" [OF True refl r t lt] "1.prems"(4,5) by (simp add: length_wr)
  qed
qed


lemma andNot_loop_tracks:
  assumes "andNot_loop d other words i lw = (d', lw')"
    and "tracks d lw" and "lw < i" and "0 \<le> i" and "words \<le> int (length d)"
  shows "tracks d' lw'"
  using assms
proof (induction d other words i lw rule: andNot_loop.induct)
  case (1 d other words i lw)
  show ?case
  proof (cases "i < words")
    case False
    with "1.prems" show ?thesis by (simp add: andNot_loop.simps [of d other words i lw])
  next
    case True
    let ?v = "js_and (num (rd d i)) (js_xor (num (rd other i)) 0xFFFF)"
    let ?lw = "if ?v \<noteq> 0 then i else lw"
    from num_rd_bounds [of d i] have vb: "0 \<le> ?v \<and> ?v < 2 ^ 16"
      by (intro js_and_bounds) simp_all
    from True "1.prems"(5) have il: "i < int (length d)" by simp
    have t: "tracks (wr d i ?v) ?lw"
      using tracks_step [OF "1.prems"(2,3,4) il] vb by blast
    have r: "andNot_loop (wr d i ?v) other words (i + 1) ?lw = (d', lw')"
      using "1.prems"(1) True by (simp add: andNot_loop.simps [of d other words i lw] Let_def)
    have lt: "?lw < i + 1" using "1.prems"(3) by simp
    show ?thesis
      using "1.IH" [OF True refl r t lt] "1.prems"(4,5) by (simp add: length_wr)
  qed
qed

lemma xor_loop_tracks:
  assumes "xor_loop dest d other minWords i lw = (dest', lw')"
    and "tracks dest lw" and "lw < i" and "0 \<le> i" and "minWords \<le> int (length dest)"
  shows "tracks dest' lw' \<and> length dest' = length dest \<and> (lw' < i \<or> lw' < minWords)"
  using assms
proof (induction dest d other minWords i lw rule: xor_loop.induct)
  case (1 dest d other minWords i lw)
  show ?case
  proof (cases "i < minWords")
    case False
    with "1.prems" show ?thesis
      by (simp add: xor_loop.simps [of dest d other minWords i lw])
  next
    case True
    let ?v = "js_xor (num (rd d i)) (num (rd other i))"
    let ?lw = "if ?v \<noteq> 0 then i else lw"
    from num_rd_bounds [of d i] num_rd_bounds [of other i] have vb: "0 \<le> ?v \<and> ?v < 2 ^ 16"
      by (intro js_xor_bounds) simp_all
    from True "1.prems"(5) have il: "i < int (length dest)" by simp
    have t: "tracks (wr dest i ?v) ?lw"
      using tracks_step [OF "1.prems"(2,3,4) il] vb by blast
    have r: "xor_loop (wr dest i ?v) d other minWords (i + 1) ?lw = (dest', lw')"
      using "1.prems"(1) True
      by (simp add: xor_loop.simps [of dest d other minWords i lw] Let_def)
    have lt: "?lw < i + 1" using "1.prems"(3) by simp
    from "1.IH" [OF True refl r t lt] "1.prems"(4,5) True show ?thesis
      by (auto simp: length_wr)
  qed
qed

lemma copy_loop_tracks:
  assumes "copy_loop dest longer words i lw = (dest', lw')"
    and "tracks dest lw" and "lw < i" and "0 \<le> i" and "words \<le> int (length dest)"
  shows "tracks dest' lw' \<and> length dest' = length dest"
  using assms
proof (induction dest longer words i lw rule: copy_loop.induct)
  case (1 dest longer words i lw)
  show ?case
  proof (cases "i < words")
    case False
    with "1.prems" show ?thesis
      by (simp add: copy_loop.simps [of dest longer words i lw])
  next
    case True
    let ?v = "num (rd longer i)"
    let ?lw = "if ?v \<noteq> 0 then i else lw"
    from num_rd_bounds [of longer i] have vb: "0 \<le> ?v \<and> ?v < 2 ^ 16" .
    from True "1.prems"(5) have il: "i < int (length dest)" by simp
    have t: "tracks (wr dest i ?v) ?lw"
      using tracks_step [OF "1.prems"(2,3,4) il] vb by blast
    have r: "copy_loop (wr dest i ?v) longer words (i + 1) ?lw = (dest', lw')"
      using "1.prems"(1) True
      by (simp add: copy_loop.simps [of dest longer words i lw] Let_def)
    have lt: "?lw < i + 1" using "1.prems"(3) by simp
    from "1.IH" [OF True refl r t lt] "1.prems"(4,5) show ?thesis
      by (simp add: length_wr)
  qed
qed

lemma tracks_slice0:
  assumes "tracks d lw" and "0 \<le> lw"
  shows "trimmed (slice0 d (lw + 1))"
proof -
  from assms have n: "nat lw < length d" and nz: "d ! nat lw \<noteq> 0"
    by (auto simp: tracks_def)
  have "slice0 d (lw + 1) = take (Suc (nat lw)) d"
    using assms(2) by (simp add: slice0_def nat_add_distrib)
  moreover have "last (take (Suc (nat lw)) d) = d ! nat lw"
    using n by (simp add: take_Suc_conv_app_nth)
  ultimately show ?thesis using nz by (simp add: trimmed_def)
qed

lemma tracks_whole:
  assumes "tracks d lw" and "0 \<le> lw" and "int (length d) = lw + 1"
  shows "trimmed d"
proof -
  from assms have "d \<noteq> []" by auto
  moreover from assms have "nat lw = length d - 1" by simp
  ultimately show ?thesis
    using assms(1,2) by (auto simp: tracks_def trimmed_def last_conv_nth)
qed

lemma and_trimmed: "trimmed (data (BitSet_and A B))"
proof -
  let ?words = "min (int (length (data A))) (int (length (data B)))"
  obtain d lw where r: "and_loop (data A) (data B) ?words 0 (- 1) = (d, lw)"
    by (cases "and_loop (data A) (data B) ?words 0 (- 1)") blast
  have t: "tracks d lw"
    by (rule and_loop_tracks [OF r]) (simp_all add: tracks_def)
  show ?thesis
  proof (cases "lw = - 1")
    case True
    then show ?thesis
      by (simp add: BitSet_and_def r Let_def EMPTY_DATA_def slice0_def trimmed_def)
  next
    case False
    with t have lw: "0 \<le> lw" "lw < int (length d)" by (auto simp: tracks_def)
    show ?thesis
    proof (cases "lw < int (length d) - 1")
      case True
      with False tracks_slice0 [OF t lw(1)] show ?thesis
        by (simp add: BitSet_and_def r Let_def)
    next
      case False
      with lw have "int (length d) = lw + 1" by simp
      from tracks_whole [OF t lw(1) this] False \<open>lw \<noteq> - 1\<close> show ?thesis
        by (simp add: BitSet_and_def r Let_def)
    qed
  qed
qed

lemma andNot_trimmed: "trimmed (data (BitSet_andNot A B))"
proof -
  let ?words = "min (int (length (data A))) (int (length (data B)))"
  obtain d lw where r: "andNot_loop (data A) (data B) ?words 0 (- 1) = (d, lw)"
    by (cases "andNot_loop (data A) (data B) ?words 0 (- 1)") blast
  have t: "tracks d lw"
    by (rule andNot_loop_tracks [OF r]) (simp_all add: tracks_def)
  show ?thesis
  proof (cases "lw = - 1")
    case True
    then show ?thesis
      by (simp add: BitSet_andNot_def r Let_def EMPTY_DATA_def slice0_def trimmed_def)
  next
    case False
    with t have lw: "0 \<le> lw" "lw < int (length d)" by (auto simp: tracks_def)
    show ?thesis
    proof (cases "lw < int (length d) - 1")
      case True
      with False tracks_slice0 [OF t lw(1)] show ?thesis
        by (simp add: BitSet_andNot_def r Let_def)
    next
      case False
      with lw have "int (length d) = lw + 1" by simp
      from tracks_whole [OF t lw(1) this] False \<open>lw \<noteq> - 1\<close> show ?thesis
        by (simp add: BitSet_andNot_def r Let_def)
    qed
  qed
qed

lemma xor_trimmed: "trimmed (data (BitSet_xor A B))"
proof -
  let ?d = "data A" and ?o = "data B"
  let ?minWords = "min (int (length ?d)) (int (length ?o))"
  let ?words = "max (int (length ?d)) (int (length ?o))"
  let ?dest0 = "if int (length ?d) = ?words then ?d else new_Uint16Array ?words"
  let ?longer = "if length ?d > length ?o then ?d else ?o"
  have l0: "int (length ?dest0) = ?words"
    by (simp add: new_Uint16Array_def)
  obtain dest1 lw1 where r1: "xor_loop ?dest0 ?d ?o ?minWords 0 (- 1) = (dest1, lw1)"
    by (cases "xor_loop ?dest0 ?d ?o ?minWords 0 (- 1)") blast
  have le0: "?minWords \<le> int (length ?dest0)" unfolding l0 by simp
  have pre: "tracks ?dest0 (- 1)" by (simp add: tracks_def)
  have neg: "(- 1 :: int) < 0" and zero: "(0 :: int) \<le> 0" by simp_all
  note x = xor_loop_tracks [OF r1 pre neg zero le0]
  from x have t1: "tracks dest1 lw1" and l1: "length dest1 = length ?dest0"
    by blast+
  have m0: "0 \<le> ?minWords" by simp
  from x have "lw1 < 0 \<or> lw1 < ?minWords" by blast
  with m0 have b1: "lw1 < ?minWords" by linarith
  obtain dest lw where r2: "copy_loop dest1 ?longer ?words ?minWords lw1 = (dest, lw)"
    by (cases "copy_loop dest1 ?longer ?words ?minWords lw1") blast
  have le1: "?words \<le> int (length dest1)" unfolding l1 l0 by simp
  from copy_loop_tracks [OF r2 t1 b1 m0 le1]
  have t: "tracks dest lw" by blast
  have res: "BitSet_xor A B =
     (if lw = - 1 then A\<lparr>data := EMPTY_DATA\<rparr>
      else if int (length dest) = lw + 1 then A\<lparr>data := dest\<rparr>
      else A\<lparr>data := slice0 dest (lw + 1)\<rparr>)"
    unfolding BitSet_xor_def Let_def r1 prod.case r2 ..
  show ?thesis
  proof (cases "lw = - 1")
    case True
    then show ?thesis by (simp add: res EMPTY_DATA_def trimmed_def)
  next
    case False
    with t have lw: "0 \<le> lw" by (auto simp: tracks_def)
    from tracks_slice0 [OF t lw] tracks_whole [OF t lw] False show ?thesis
      by (simp add: res)
  qed
qed

text \<open>
  C4. After \<open>and\<close>, \<open>andNot\<close>, \<open>xor\<close> and \<open>or\<close> the last stored word should be
  non-zero or the store empty. The code at \<open>A = new BitSet(48); A.set(16)\<close> and
  \<open>B = new BitSet()\<close>: \<open>A\<close> holds \<open>[0, 1, 0]\<close>, its highest non-zero word is word 1,
  and \<open>A.or(B)\<close> leaves the store \<open>[0]\<close>: one word, and that word is zero.
\<close>

theorem or_leaves_zero_word_at_failing_input:
  "BitSet_new (Nbits 48) = Inr \<lparr>data = [0, 0, 0]\<rparr>
   \<and> BitSet_set \<lparr>data = [0, 0, 0]\<rparr> 16 Absent None = Inr \<lparr>data = [0, 1, 0]\<rparr>
   \<and> BitSet_or \<lparr>data = [0, 1, 0]\<rparr> \<lparr>data = []\<rparr> = \<lparr>data = [0]\<rparr>
   \<and> data (BitSet_or \<lparr>data = [0, 1, 0]\<rparr> \<lparr>data = []\<rparr>) \<noteq> []
   \<and> last (data (BitSet_or \<lparr>data = [0, 1, 0]\<rparr> \<lparr>data = []\<rparr>)) = 0"
  by code_simp

subsection \<open>Scans\<close>

text \<open>
  C6. \<open>nextClearBit\<close> should never return an index at or beyond the capacity, and
  \<minus>1 when the scan leaves the store. The code at the empty BitSet and index 0 returns
  0, with capacity 0; on the store \<open>[0xFFFF]\<close> (capacity 16) it returns 16 from index
  16, though it returns \<minus>1 from index 0: the guard is \<open>word > length\<close>, so the word just
  past the store is read as \<open>undefined\<close> and scanned like a word of zeros.
\<close>

theorem nextClearBit_beyond_capacity_at_failing_input:
  "BitSet_nextClearBit \<lparr>data = []\<rparr> 0 = Inr 0
   \<and> BitSet_size \<lparr>data = []\<rparr> = 0
   \<and> BitSet_nextClearBit \<lparr>data = [0xFFFF]\<rparr> 16 = Inr 16
   \<and> BitSet_size \<lparr>data = [0xFFFF]\<rparr> = 16
   \<and> BitSet_nextClearBit \<lparr>data = [0xFFFF]\<rparr> 0 = Inr (- 1)"
  by code_simp

text \<open>
  C10. On an empty BitSet \<open>previousClearBit(fromIndex)\<close> returns \<open>fromIndex \<minus> 16\<close> for
  every \<open>fromIndex\<close> from 0 to 14: the word index becomes \<minus>1, the read there is
  \<open>undefined\<close>, and the result is \<open>unIndex(\<minus>1)\<close> plus the highest bit of the mask.
  The result is negative and is not \<minus>1.
\<close>

theorem previousClearBit_empty:
  assumes "data this = []" and "0 \<le> fromIndex" and "fromIndex \<le> 14"
  shows "BitSet_previousClearBit this fromIndex = Inr (fromIndex - 16)
         \<and> fromIndex - 16 < 0 \<and> fromIndex - 16 \<noteq> - 1"
proof -
  have "fromIndex \<in> {0, 1, 2, 3, 4, 5, 6, 7, 8, 9, 10, 11, 12, 13, 14}"
    using assms(2,3) by (simp, arith)
  then show ?thesis
    using assms(1)
    by (elim insertE emptyE)
       (simp_all add: BitSet_previousClearBit_def getIndex_def bitsFor_def rd_def num_def
          unIndex_def findMSBSet_def findMSBSet_loop.simps js_defs)
qed

theorem previousClearBit_empty_witness:
  "data \<lparr>data = []\<rparr> = [] \<and> (0::int) \<le> 3 \<and> (3::int) \<le> 14
   \<and> BitSet_previousClearBit \<lparr>data = []\<rparr> 3 = Inr (- 13)"
  using previousClearBit_empty [of "\<lparr>data = []\<rparr>" 3] by simp

subsection \<open>Negative indices\<close>

text \<open>
  \<open>set\<close>, \<open>clear\<close>, \<open>flip\<close> and the four scans test the index first: a negative index
  is a \<open>RangeError\<close>, raised before any write.
\<close>

lemma negative_index_rejected:
  assumes "fromIndex < 0"
  shows "BitSet_set this fromIndex a v = Inl RangeError"
    and "BitSet_clear this fromIndex = Inl RangeError"
    and "BitSet_flip this fromIndex t = Inl RangeError"
    and "BitSet_nextSetBit this fromIndex = Inl RangeError"
    and "BitSet_nextClearBit this fromIndex = Inl RangeError"
    and "BitSet_previousSetBit this fromIndex = Inl RangeError"
    and "BitSet_previousClearBit this fromIndex = Inl RangeError"
  using assms
  by (simp_all add: BitSet_set_def BitSet_clear_def BitSet_flip_def BitSet_nextSetBit_def
        BitSet_nextClearBit_def BitSet_previousSetBit_def BitSet_previousClearBit_def
        split: set_arg.splits option.splits)

text \<open>
  C7. Every operation given a negative bit index should fail with a range error. The
  code of \<open>get(bitIndex)\<close> has no check: at the empty BitSet and index \<minus>1 it reads word
  \<open>0x0FFFFFFF\<close>, finds \<open>undefined\<close>, and returns \<open>false\<close>. Its own comment says
  \<open>@throws RangeError if the specified index is negative\<close>.
\<close>

theorem get_negative_returns_at_failing_input:
  "BitSet_get \<lparr>data = []\<rparr> (- 1) = Inr False"
  by code_simp

subsection \<open>Range set\<close>

text \<open>
  C8. \<open>E = new BitSet(); E.set(0, 20)\<close> should set bits 0 to 19 and give cardinality 20
  (the comment of \<open>set\<close> says \<open>toIndex\<close> is exclusive). The code sets bit 20 as well:
  the store is \<open>[0xFFFF, 0x1F]\<close> and the cardinality is 21.
\<close>

theorem set_range_includes_toIndex_at_failing_input:
  "BitSet_new NoArg = Inr \<lparr>data = []\<rparr>
   \<and> BitSet_set \<lparr>data = []\<rparr> 0 (Index 20) None = Inr \<lparr>data = [0xFFFF, 0x1F]\<rparr>
   \<and> BitSet_get \<lparr>data = [0xFFFF, 0x1F]\<rparr> 20 = Inr True
   \<and> BitSet_cardinality \<lparr>data = [0xFFFF, 0x1F]\<rparr> = Inr 21"
  by code_simp


subsection \<open>Construction from numbers\<close>

lemma set_zero_keeps_length:
  assumes "0 < length (data this)"
  shows "\<exists>this'. BitSet_set this 0 Absent None = Inr this' \<and> length (data this') = length (data this)"
  using assms by (simp add: BitSet_set_def getIndex_0 set_words_def length_setBits)

lemma set_each_zeros_keeps_length:
  assumes "\<forall>v \<in> set vs. v = 0" and "0 < length (data this)"
  shows "\<exists>this'. set_each this vs = Inr this' \<and> length (data this') = length (data this)"
  using assms
proof (induction vs arbitrary: this)
  case Nil
  then show ?case by simp
next
  case (Cons v vs)
  from Cons.prems have v: "v = 0" by simp
  from set_zero_keeps_length [OF Cons.prems(2)] obtain t
    where t: "BitSet_set this 0 Absent None = Inr t" "length (data t) = length (data this)"
    by blast
  from Cons.IH [of t] Cons.prems t(2) obtain t'
    where "set_each t vs = Inr t'" "length (data t') = length (data t)"
    by auto
  with v t show ?case by simp
qed

lemma max_loop_Max: "max_loop m vs = Max (insert m (set vs))"
proof (induction vs arbitrary: m)
  case Nil
  then show ?case by simp
next
  case (Cons v vs)
  have "(if m < v then v else m) = max m v"
    by (auto simp: max_def)
  then have "max_loop m (v # vs) = max_loop (max m v) vs"
    by simp
  also have "\<dots> = Max (insert (max m v) (set vs))"
    by (rule Cons.IH)
  also have "\<dots> = Max (insert m (insert v (set vs)))"
    by (cases "set vs = {}") (simp_all add: max.assoc max.commute)
  finally show ?case by simp
qed

lemma all_zero:
  assumes "vs = [] \<or> Max (set vs) = 0" and "\<forall>v \<in> set vs. 0 \<le> v"
  shows "\<forall>v \<in> set vs. v = 0"
proof
  fix v assume v: "v \<in> set vs"
  then have "vs \<noteq> []" by auto
  with assms(1) have "Max (set vs) = 0" by simp
  moreover have "v \<le> Max (set vs)" using v by simp
  ultimately show "v = 0" using assms(2) v by force
qed

text \<open>
  C9. Constructing a BitSet from an empty iterable, or from an iterable whose maximum
  is 0 (as in \<open>new BitSet([0])\<close>), allocates \<open>2^28\<close> words: \<open>max \<minus> 1\<close> is \<minus>2 or \<minus>1,
  and \<open>getIndex\<close> shifts it as an unsigned 32-bit number. When no element is negative
  the \<open>set\<close> calls that follow succeed and keep the length, so the BitSet has \<open>2^28\<close>
  words and \<open>size\<close> is \<open>2^32\<close>.
\<close>

theorem constructor_allocates_2_28_words:
  assumes "vs = [] \<or> Max (set vs) = 0"
  shows "max_loop (- 1) vs - 1 \<in> {- 1, - 2}
         \<and> length (new_Uint16Array (getIndex (max_loop (- 1) vs - 1) + 1)) = 2 ^ 28
         \<and> ((\<forall>v \<in> set vs. 0 \<le> v) \<longrightarrow>
              (\<exists>this. BitSet_new (Numbers vs) = Inr this
                 \<and> length (data this) = 2 ^ 28 \<and> BitSet_size this = 2 ^ 32))"
proof -
  let ?mx = "max_loop (- 1) vs"
  have mx: "?mx = (if vs = [] then - 1 else 0)"
    using assms by (auto simp: max_loop_Max)
  then have idx: "getIndex (?mx - 1) + 1 = 2 ^ 28"
    by (simp add: getIndex_minus)
  let ?t = "\<lparr>data = new_Uint16Array (getIndex (?mx - 1) + 1)\<rparr>"
  have len: "length (data ?t) = 2 ^ 28"
    by (simp add: idx new_Uint16Array_def)
  have "\<exists>this. BitSet_new (Numbers vs) = Inr this
           \<and> length (data this) = 2 ^ 28 \<and> BitSet_size this = 2 ^ 32"
    if nn: "\<forall>v \<in> set vs. 0 \<le> v"
  proof -
    from len have pos: "0 < length (data ?t)" by simp
    from set_each_zeros_keeps_length [OF all_zero [OF assms nn] pos] len obtain t'
      where t': "set_each ?t vs = Inr t'" "length (data t') = 2 ^ 28"
      by auto
    have "BitSet_new (Numbers vs) = Inr t'"
      using t'(1) by (simp add: Let_def)
    moreover have "BitSet_size t' = 2 ^ 32"
      by (simp add: BitSet_size_def t'(2))
    ultimately show ?thesis using t'(2) by blast
  qed
  with mx len show ?thesis by auto
qed

theorem constructor_allocates_2_28_words_witness:
  "(\<exists>this. BitSet_new (Numbers [0]) = Inr this
          \<and> length (data this) = 2 ^ 28 \<and> BitSet_size this = 2 ^ 32)
   \<and> (\<exists>this. BitSet_new (Numbers []) = Inr this
          \<and> length (data this) = 2 ^ 28 \<and> BitSet_size this = 2 ^ 32)"
proof -
  have h1: "[0::int] = [] \<or> Max (set [0::int]) = 0" by simp
  have h2: "([]::int list) = [] \<or> Max (set ([]::int list)) = 0" by simp
  have n1: "\<forall>v \<in> set [0::int]. 0 \<le> v" by simp
  have n2: "\<forall>v \<in> set ([]::int list). 0 \<le> v" by simp
  from constructor_allocates_2_28_words [OF h1] constructor_allocates_2_28_words [OF h2] n1 n2
  show ?thesis by blast
qed

subsection \<open>Equality and hashing\<close>

lemma previousSetBit_top:
  assumes ne: "data this \<noteq> []" and nz: "last (data this) \<noteq> 0"
    and le: "length (data this) \<le> 2 ^ 28"
    and r: "BitSet_previousSetBit this (unIndex (int (length (data this))) - 1) = Inr p"
  shows "16 * (int (length (data this)) - 1) \<le> p \<and> p < 16 * int (length (data this))"
proof -
  let ?n = "int (length (data this))"
  let ?x = "unIndex ?n - 1"
  from ne have n1: "1 \<le> ?n" by (cases "data this") simp_all
  from le have n2: "?n \<le> 2 ^ 28" by simp
  have x: "?x = 16 * ?n - 1" by (simp add: unIndex_def)
  from le have n2': "?n \<le> 268435456" by simp
  have x0: "0 \<le> ?x" unfolding x using n1 by linarith
  have "?x < 4294967296" unfolding x using n2' by linarith
  then have x1: "?x < 2 ^ 32" by simp
  have xm: "?x mod 16 = 15"
  proof -
    have "?x = 15 + (?n - 1) * 16" by (simp add: x algebra_simps)
    then have "?x mod 16 = (15 + (?n - 1) * 16) mod 16" by simp
    also have "\<dots> = 15 mod 16" by (rule mod_mult_self1)
    finally show ?thesis by simp
  qed
  have gi: "getIndex ?x = ?n - 1"
    using x0 x1 by (simp add: getIndex_div) (simp add: x)
  have msk: "bitsFor 0 ?x = 0xFFFF" by (rule bitsFor_0_last [OF xm])
  have rdl: "rd (data this) (?n - 1) = Some (uint (last (data this)))"
    using ne n1 by (simp add: rd_def last_conv_nth nat_diff_distrib)
  have nz': "uint (last (data this)) \<noteq> 0"
    using nz by (simp add: uint_0_iff)
  from r obtain b where b: "findMSBSet (uint (last (data this))) = Inr b"
    and p: "p = unIndex (?n - 1) + b"
    using x0 nz'
    by (cases "findMSBSet (uint (last (data this)))")
       (simp_all add: BitSet_previousSetBit_def Let_def gi msk rdl num_def js_and_uint_FFFF
          del: of_nat_diff)
  from findMSBSet_range [OF b] p show ?thesis
    by (simp add: unIndex_def)
qed

lemma length_trimmed:
  assumes ne: "data this \<noteq> []" and nz: "last (data this) \<noteq> 0"
    and le: "length (data this) \<le> 2 ^ 28"
    and r: "BitSet_length this = Inr n"
  shows "16 * (int (length (data this)) - 1) < n \<and> n \<le> 16 * int (length (data this))"
proof -
  from r ne obtain p
    where p: "BitSet_previousSetBit this (unIndex (int (length (data this))) - 1) = Inr p"
      and n: "n = p + 1"
    by (cases "BitSet_previousSetBit this (unIndex (int (length (data this))) - 1)")
       (simp_all add: BitSet_length_def)
  from previousSetBit_top [OF ne nz le p] n show ?thesis by simp
qed

lemma length_empty: "data this = [] \<Longrightarrow> BitSet_length this = Inr 0"
  by (simp add: BitSet_length_def)

lemma equals_loop_all:
  "equals_loop d other i bound \<Longrightarrow> i \<le> j \<Longrightarrow> j \<le> bound \<Longrightarrow> rd d j = rd other j"
proof (induction d other i bound rule: equals_loop.induct)
  case (1 d other i bound)
  from "1.prems" have ib: "i \<le> bound" by simp
  with "1.prems"(1) have eq: "rd d i = rd other i" and rest: "equals_loop d other (i + 1) bound"
    by (simp_all add: equals_loop.simps [of d other i bound] split: if_splits)
  show ?case
  proof (cases "j = i")
    case True
    with eq show ?thesis by simp
  next
    case False
    with "1.prems" have "i + 1 \<le> j" by simp
    with "1.IH" [OF ib _ rest] eq "1.prems" show ?thesis by simp
  qed
qed

lemma same_block:
  "16 * (a - 1) < (n::int) \<Longrightarrow> n \<le> 16 * a \<Longrightarrow> 16 * (b - 1) < n \<Longrightarrow> n \<le> 16 * b \<Longrightarrow> a = b"
  by presburger

lemma block_div:
  "16 * (a - 1) < (n::int) \<Longrightarrow> n \<le> 16 * a \<Longrightarrow> (n - 1) div 16 = a - 1"
  by presburger

lemma equals_trimmed_data:
  assumes eq: "BitSet_equals A B = Inr True"
    and tA: "trimmed (data A)" and tB: "trimmed (data B)"
    and lA: "length (data A) \<le> 2 ^ 28" and lB: "length (data B) \<le> 2 ^ 28"
  shows "data A = data B"
proof -
  from eq obtain len where la: "BitSet_length A = Inr len" and lb: "BitSet_length B = Inr len"
    and loop: "len = 0 \<or> equals_loop (data A) (data B) 0 (getIndex (len - 1))"
    by (auto simp: BitSet_equals_def split: sum.splits if_splits)
  let ?a = "int (length (data A))" and ?b = "int (length (data B))"
  have bA: "data A \<noteq> [] \<Longrightarrow> 16 * (?a - 1) < len \<and> len \<le> 16 * ?a"
    using length_trimmed [OF _ _ lA la] tA by (simp add: trimmed_def)
  have bB: "data B \<noteq> [] \<Longrightarrow> 16 * (?b - 1) < len \<and> len \<le> 16 * ?b"
    using length_trimmed [OF _ _ lB lb] tB by (simp add: trimmed_def)
  have zA: "data A = [] \<Longrightarrow> len = 0" using length_empty [of A] la by simp
  have zB: "data B = [] \<Longrightarrow> len = 0" using length_empty [of B] lb by simp
  show ?thesis
  proof (cases "data A = []")
    case True
    with zA have "len = 0" by simp
    with bB have "data B = []" by fastforce
    with True show ?thesis by simp
  next
    case False
    from False have a1: "1 \<le> ?a" by (cases "data A") simp_all
    with bA [OF False] have pos: "0 < len" by arith
    with zB have neB: "data B \<noteq> []" by auto
    from bA [OF False] bB [OF neB] have same: "?a = ?b" by (blast intro: same_block)
    from bA [OF False] lA have "len - 1 < 2 ^ 32" by simp
    with pos have "getIndex (len - 1) = (len - 1) div 16"
      by (simp add: getIndex_div)
    also from bA [OF False] have "\<dots> = ?a - 1" by (blast intro: block_div)
    finally have bound: "getIndex (len - 1) = ?a - 1" .
    from loop pos have el: "equals_loop (data A) (data B) 0 (?a - 1)"
      by (simp add: bound)
    show ?thesis
    proof (rule nth_equalityI)
      show "length (data A) = length (data B)" using same by simp
    next
      fix i assume i: "i < length (data A)"
      then have "rd (data A) (int i) = rd (data B) (int i)"
        by (intro equals_loop_all [OF el]) simp_all
      with i same have "uint (data A ! i) = uint (data B ! i)"
        by (simp add: rd_def)
      then show "data A ! i = data B ! i" by (rule word_uint_eqI)
    qed
  qed
qed

text \<open>
  On trimmed stores (of at most \<open>2^28\<close> words, the range of \<open>getIndex\<close>) \<open>equals\<close>
  holds only between identical arrays, so there the hash codes agree whatever the
  hash function is: \<open>equals\<close> and \<open>hashCode\<close> can only disagree on a store with a
  trailing zero word.
\<close>

lemma equals_trimmed_hashCode:
  assumes "BitSet_equals A B = Inr True"
    and "trimmed (data A)" and "trimmed (data B)"
    and "length (data A) \<le> 2 ^ 28" and "length (data B) \<le> 2 ^ 28"
  shows "BitSet_hashCode murmur A = BitSet_hashCode murmur B"
  using equals_trimmed_data [OF assms] by (simp add: BitSet_hashCode_def)

text \<open>
  C5. BitSets that are equal per \<open>equals\<close> should have equal hash codes, the hash
  being taken over the trimmed word sequence. \<open>equals\<close> compares up to \<open>length()\<close>
  and so ignores trailing zero words (its comment: the current sizes of the two bit
  sets are not compared), but \<open>hashCode\<close> passes the whole stored array to the hash.
  The code at \<open>A = new BitSet(16)\<close> (store \<open>[0]\<close>; \<open>clear(0)\<close> on the store \<open>[1]\<close> gives
  the same) and \<open>B = new BitSet()\<close> (store \<open>[]\<close>): \<open>A.equals(B)\<close> is true, \<open>A\<close> is hashed
  over \<open>[0]\<close> and \<open>B\<close> over \<open>[]\<close>, and the hash of the spec's kind gives 682 and 22.
\<close>

theorem equals_hashCode_differ_at_failing_input:
  "BitSet_new (Nbits 16) = Inr \<lparr>data = [0]\<rparr>
   \<and> BitSet_clear \<lparr>data = [1]\<rparr> 0 = Inr \<lparr>data = [0]\<rparr>
   \<and> BitSet_new NoArg = Inr \<lparr>data = []\<rparr>
   \<and> BitSet_equals \<lparr>data = [0]\<rparr> \<lparr>data = []\<rparr> = Inr True
   \<and> BitSet_hashCode murmur \<lparr>data = [0]\<rparr> = murmur [0] 22
   \<and> BitSet_hashCode murmur \<lparr>data = []\<rparr> = murmur [] 22
   \<and> BitSet_hashCode MurmurHash_hashCode \<lparr>data = [0]\<rparr> = 682
   \<and> BitSet_hashCode MurmurHash_hashCode \<lparr>data = []\<rparr> = 22"
proof -
  have ctor: "BitSet_new (Nbits 16) = Inr \<lparr>data = [0]\<rparr>
      \<and> BitSet_clear \<lparr>data = [1]\<rparr> 0 = Inr \<lparr>data = [0]\<rparr>
      \<and> BitSet_new NoArg = Inr \<lparr>data = []\<rparr>"
    by code_simp
  have eq: "BitSet_equals \<lparr>data = [0]\<rparr> \<lparr>data = []\<rparr> = Inr True"
    by code_simp
  have arg: "BitSet_hashCode murmur \<lparr>data = [0]\<rparr> = murmur [0] 22
      \<and> BitSet_hashCode murmur \<lparr>data = []\<rparr> = murmur [] 22"
    by (simp add: BitSet_hashCode_def)
  have val: "BitSet_hashCode MurmurHash_hashCode \<lparr>data = [0]\<rparr> = 682
      \<and> BitSet_hashCode MurmurHash_hashCode \<lparr>data = []\<rparr> = 22"
    by code_simp
  from ctor eq arg val show ?thesis by blast
qed

end
